theory Spec2Isabelle
  imports Complex_Main "HOL-Library.Multiset"
begin

section \<open>The grid-point counter of \<open>input_files/count_extinction_grid.py\<close>\<close>

text \<open>
  The script opens the file \<open>EJK_G12_S20_LR.dat\<close>, walks over its lines, skips those
  that start with \<open>#\<close>, splits every other line at single spaces, converts fields 0
  and 1 with \<open>float\<close>, and counts the lines with \<open>-3.1 < l < 3.1\<close> and
  \<open>-1.8 < b < 1.8\<close>. At the end it prints one sentence holding the count.

  Text is a \<^typ>\<open>string\<close>: a list of characters with code points below 256; the
  text of the file is taken as decoded. Exceptions are values of type \<open>error\<close>; a
  computation that may raise returns \<open>error + 'a\<close>. \<open>OSError\<close> stands for the failure
  of \<open>open\<close>, \<open>ValueError\<close> for that of \<open>float\<close>, \<open>IndexError\<close> for that of
  \<open>line_s[1]\<close>.
\<close>

subsection \<open>Exceptions\<close>

datatype error = OSError | ValueError | IndexError

subsection \<open>Characters\<close>

definition LF :: char where "LF = CHR 0x0A"
definition CR :: char where "CR = CHR 0x0D"

definition Py_ISSPACE :: "char \<Rightarrow> bool" where
  \<comment> \<open>the interpreter's ASCII white space: tab, line feed, vertical tab, form feed,
      carriage return, space\<close>
  "Py_ISSPACE c = (c = CHR 0x09 \<or> c = CHR 0x0A \<or> c = CHR 0x0B \<or> c = CHR 0x0C
                   \<or> c = CHR 0x0D \<or> c = CHR 0x20)"

definition Py_UNICODE_ISSPACE :: "char \<Rightarrow> bool" where
  \<comment> \<open>\<open>str.isspace\<close> on one character, for code points below 256\<close>
  "Py_UNICODE_ISSPACE c = (Py_ISSPACE c \<or> c = CHR 0x1C \<or> c = CHR 0x1D \<or> c = CHR 0x1E
                   \<or> c = CHR 0x1F \<or> c = CHR 0x85 \<or> c = CHR 0xA0)"

definition Py_ISDIGIT :: "char \<Rightarrow> bool" where
  "Py_ISDIGIT c = (48 \<le> (of_char c :: int) \<and> (of_char c :: int) \<le> 57)"

definition digit_value :: "char \<Rightarrow> int" where
  "digit_value c = of_char c - 48"

definition Py_TOLOWER :: "char \<Rightarrow> char" where
  "Py_TOLOWER c =
     (if 65 \<le> (of_char c :: int) \<and> (of_char c :: int) \<le> 90 then char_of (of_char c + (32::int)) else c)"

subsection \<open>Floating-point values\<close>

text \<open>
  A Python \<open>float\<close> is an IEEE 754 binary64 number. A finite one is kept as the
  rational it denotes (the two zeros compare equal and are not told apart).
\<close>

datatype pyfloat = Finite rat | PosInf | NegInf | NaN

fun float_lt :: "pyfloat \<Rightarrow> pyfloat \<Rightarrow> bool" where
  "float_lt NaN _ = False"
| "float_lt _ NaN = False"
| "float_lt (Finite x) (Finite y) = (x < y)"
| "float_lt (Finite x) PosInf = True"
| "float_lt (Finite x) NegInf = False"
| "float_lt PosInf _ = False"
| "float_lt NegInf (Finite y) = True"
| "float_lt NegInf PosInf = True"
| "float_lt NegInf NegInf = False"

definition float_gt :: "pyfloat \<Rightarrow> pyfloat \<Rightarrow> bool" where
  "float_gt x y = float_lt y x"

fun float_neg :: "pyfloat \<Rightarrow> pyfloat" where
  "float_neg (Finite x) = Finite (- x)"
| "float_neg PosInf = NegInf"
| "float_neg NegInf = PosInf"
| "float_neg NaN = NaN"

subsubsection \<open>Rounding a rational to binary64\<close>

function bit_length :: "int \<Rightarrow> int" where
  \<comment> \<open>the number of binary digits of a positive integer\<close>
  "bit_length n = (if n \<le> 0 then 0 else 1 + bit_length (n div 2))"
  by pat_completeness auto
termination
  by (relation "measure nat") auto

declare bit_length.simps [simp del]

definition pow2 :: "int \<Rightarrow> rat" where
  "pow2 e = (if 0 \<le> e then 2 ^ nat e else 1 / 2 ^ nat (- e))"

definition floor_log2 :: "rat \<Rightarrow> int" where
  \<comment> \<open>for \<open>q > 0\<close>: the \<open>e\<close> with \<open>2 ^ e \<le> q < 2 ^ (e + 1)\<close>\<close>
  "floor_log2 q =
     (let (n, d) = quotient_of q;
          k = bit_length n - bit_length d
      in if pow2 k \<le> q then k else k - 1)"

definition round_half_even :: "rat \<Rightarrow> int" where
  "round_half_even q =
     (let f = \<lfloor>q\<rfloor>; r = q - of_int f
      in if r < 1 / 2 then f
         else if 1 / 2 < r then f + 1
         else if even f then f else f + 1)"

definition round_binary64 :: "rat \<Rightarrow> pyfloat" where
  \<comment> \<open>round to nearest, ties to even, 53 significant bits, least exponent \<open>-1074\<close>;
      a result of \<open>2 ^ 1024\<close> or more (binary exponent 1024 or more) is an infinity\<close>
  "round_binary64 q =
     (if q = 0 then Finite 0
      else let a = \<bar>q\<bar>;
               p = max (floor_log2 a - 52) (- 1074);
               v = of_int (round_half_even (a / pow2 p)) * pow2 p
           in if 1024 \<le> floor_log2 v then (if q < 0 then NegInf else PosInf)
              else Finite (if q < 0 then - v else v))"

subsection \<open>\<open>float(s)\<close>\<close>

fun TransformDecimalAndSpaceToASCII :: "string \<Rightarrow> string" where
  \<comment> \<open>ASCII stays; other white space becomes a space; anything else becomes \<open>?\<close>
      and ends the string (no code point from 127 to 255 is a decimal digit)\<close>
  "TransformDecimalAndSpaceToASCII [] = []"
| "TransformDecimalAndSpaceToASCII (c # cs) =
     (if (of_char c :: int) < 127 then c # TransformDecimalAndSpaceToASCII cs
      else if Py_UNICODE_ISSPACE c then CHR '' '' # TransformDecimalAndSpaceToASCII cs
      else ''?'')"

fun remove_underscores :: "char \<Rightarrow> string \<Rightarrow> string option" where
  \<comment> \<open>an underscore is allowed only between two digits; \<open>prev\<close> is the character before\<close>
  "remove_underscores prev [] = (if prev = CHR ''_'' then None else Some [])"
| "remove_underscores prev (c # cs) =
     (if c = CHR ''_'' then
        (if Py_ISDIGIT prev then remove_underscores c cs else None)
      else if prev = CHR ''_'' \<and> \<not> Py_ISDIGIT c then None
      else map_option ((#) c) (remove_underscores c cs))"

definition strip_space :: "string \<Rightarrow> string" where
  "strip_space s = rev (dropWhile Py_ISSPACE (rev (dropWhile Py_ISSPACE s)))"

definition int_of_digits :: "string \<Rightarrow> int" where
  "int_of_digits ds = foldl (\<lambda>a c. 10 * a + digit_value c) 0 ds"

definition parse_sign :: "string \<Rightarrow> bool \<times> string" where
  "parse_sign s =
     (case s of
        c # cs \<Rightarrow> if c = CHR ''-'' then (True, cs) else if c = CHR ''+'' then (False, cs) else (False, s)
      | [] \<Rightarrow> (False, s))"

definition parse_exponent :: "string \<Rightarrow> int option" where
  \<comment> \<open>what follows the digits of the significand: nothing, or \<open>e\<close>/\<open>E\<close>, a sign
      perhaps, and digits up to the end\<close>
  "parse_exponent s =
     (case s of
        [] \<Rightarrow> Some 0
      | c # cs \<Rightarrow>
          if c = CHR ''e'' \<or> c = CHR ''E'' then
            (let (neg, ds) = parse_sign cs
             in if ds \<noteq> [] \<and> list_all Py_ISDIGIT ds
                then Some (if neg then - int_of_digits ds else int_of_digits ds)
                else None)
          else None)"

definition decimal_value :: "int \<Rightarrow> int \<Rightarrow> rat" where
  \<comment> \<open>\<open>m\<close> times ten to the power \<open>e\<close>\<close>
  "decimal_value m e = (if 0 \<le> e then of_int m * 10 ^ nat e else of_int m / 10 ^ nat (- e))"

definition parse_decimal :: "string \<Rightarrow> rat option" where
  \<comment> \<open>digits, perhaps a point and more digits, at least one digit in all, then the exponent\<close>
  "parse_decimal s =
     (let ip = takeWhile Py_ISDIGIT s; r1 = dropWhile Py_ISDIGIT s;
          (fp, r2) = (case r1 of
                        c # cs \<Rightarrow> if c = CHR ''.'' then (takeWhile Py_ISDIGIT cs, dropWhile Py_ISDIGIT cs)
                                  else ([], r1)
                      | [] \<Rightarrow> ([], r1))
      in if ip = [] \<and> fp = [] then None
         else case parse_exponent r2 of
                None \<Rightarrow> None
              | Some e \<Rightarrow> Some (decimal_value (int_of_digits (ip @ fp)) (e - int (length fp))))"

definition string_to_double :: "string \<Rightarrow> pyfloat option" where
  \<comment> \<open>the whole of \<open>s\<close> must be a number: a sign perhaps, then a decimal number, or
      \<open>inf\<close>, \<open>infinity\<close> or \<open>nan\<close> in any case\<close>
  "string_to_double s =
     (let (neg, r) = parse_sign s
      in case parse_decimal r of
           Some q \<Rightarrow> Some (round_binary64 (if neg then - q else q))
         | None \<Rightarrow>
             (let w = map Py_TOLOWER r
              in if w = ''inf'' \<or> w = ''infinity'' then Some (if neg then NegInf else PosInf)
                 else if w = ''nan'' then Some NaN
                 else None))"

definition float :: "string \<Rightarrow> error + pyfloat" where
  "float v =
     (case remove_underscores (CHR 0x00) (TransformDecimalAndSpaceToASCII v) of
        None \<Rightarrow> Inl ValueError
      | Some s \<Rightarrow>
          (case string_to_double (strip_space s) of
             None \<Rightarrow> Inl ValueError
           | Some x \<Rightarrow> Inr x))"

subsection \<open>String and list operations\<close>

fun startswith :: "string \<Rightarrow> string \<Rightarrow> bool" where
  "startswith s [] = True"
| "startswith [] (p # ps) = False"
| "startswith (c # cs) (p # ps) = (c = p \<and> startswith cs ps)"

fun split_str :: "string \<Rightarrow> char \<Rightarrow> string list" where
  \<comment> \<open>\<open>s.split(sep)\<close> for a separator of one character: one field more than there
      are separators, empty fields kept\<close>
  "split_str [] sep = [] # []"
| "split_str (c # cs) sep =
     (if c = sep then [] # split_str cs sep
      else (case split_str cs sep of
              f # fs \<Rightarrow> (c # f) # fs
            | [] \<Rightarrow> [c] # []))"

definition getitem :: "'a list \<Rightarrow> nat \<Rightarrow> error + 'a" where
  \<comment> \<open>\<open>xs[i]\<close> for a literal index \<open>i \<ge> 0\<close>\<close>
  "getitem xs i = (if i < length xs then Inr (xs ! i) else Inl IndexError)"

subsection \<open>Reading the file\<close>

fun universal_newlines :: "string \<Rightarrow> string" where
  \<comment> \<open>text mode: \<open>\r\n\<close> and \<open>\r\<close> are read as \<open>\n\<close>\<close>
  "universal_newlines [] = []"
| "universal_newlines [c] = (if c = CR then [LF] else [c])"
| "universal_newlines (c # d # cs) =
     (if c = CR \<and> d = LF then LF # universal_newlines cs
      else if c = CR then LF # universal_newlines (d # cs)
      else c # universal_newlines (d # cs))"

fun readlines :: "string \<Rightarrow> string list" where
  \<comment> \<open>every line keeps its line feed; the last line may lack one\<close>
  "readlines [] = []"
| "readlines (c # cs) =
     (if c = LF then [c] # readlines cs
      else (case readlines cs of
              l # ls \<Rightarrow> (c # l) # ls
            | [] \<Rightarrow> [c] # []))"

subsection \<open>The loop\<close>

definition lit_3_1 :: pyfloat where
  \<comment> \<open>the literal \<open>3.1\<close>\<close>
  "lit_3_1 = round_binary64 (31 / 10)"

definition lit_1_8 :: pyfloat where
  \<comment> \<open>the literal \<open>1.8\<close>\<close>
  "lit_1_8 = round_binary64 (18 / 10)"

definition in_footprint :: "pyfloat \<Rightarrow> pyfloat \<Rightarrow> bool" where
  \<comment> \<open>\<open>l>-3.1 and l<3.1 and (b>-1.8 and b<1.8)\<close>\<close>
  "in_footprint l b =
     (float_gt l (float_neg lit_3_1) \<and> float_lt l lit_3_1
      \<and> (float_gt b (float_neg lit_1_8) \<and> float_lt b lit_1_8))"

definition loop_body :: "int \<Rightarrow> string \<Rightarrow> error + int" where
  \<comment> \<open>one pass through the body of the \<open>for\<close> loop: the counter before, the line,
      and the counter after or the exception raised\<close>
  "loop_body cnt line =
     (if startswith line ''#'' then Inr cnt
      else
        let line_s = split_str line (CHR '' '') in
        (case getitem line_s 0 of Inl e \<Rightarrow> Inl e | Inr s0 \<Rightarrow>
        (case float s0 of Inl e \<Rightarrow> Inl e | Inr l \<Rightarrow>
        (case getitem line_s 1 of Inl e \<Rightarrow> Inl e | Inr s1 \<Rightarrow>
        (case float s1 of Inl e \<Rightarrow> Inl e | Inr b \<Rightarrow>
          if in_footprint l b then Inr (cnt + 1) else Inr cnt)))))"

fun for_loop :: "int \<Rightarrow> string list \<Rightarrow> error + int" where
  "for_loop cnt [] = Inr cnt"
| "for_loop cnt (line # lines) =
     (case loop_body cnt line of
        Inl e \<Rightarrow> Inl e
      | Inr cnt' \<Rightarrow> for_loop cnt' lines)"

subsection \<open>The output\<close>

function decimal_digits :: "int \<Rightarrow> string" where
  \<comment> \<open>the decimal digits of an integer \<open>n \<ge> 0\<close>, most significant first\<close>
  "decimal_digits n =
     (if n < 10 then [char_of (48 + n)]
      else decimal_digits (n div 10) @ [char_of (48 + n mod 10)])"
  by pat_completeness auto
termination
  by (relation "measure nat") auto

declare decimal_digits.simps [simp del]

definition str_int :: "int \<Rightarrow> string" where
  \<comment> \<open>\<open>str(n)\<close> for an integer\<close>
  "str_int n = (if n < 0 then CHR ''-'' # decimal_digits (- n) else decimal_digits n)"

definition message :: "int \<Rightarrow> string" where
  "message cnt =
     ''There are '' @ str_int cnt @ '' grid points within the JASMINE extended footprint''"

definition print_line :: "string \<Rightarrow> string" where
  \<comment> \<open>what \<open>print(s)\<close> writes to standard output\<close>
  "print_line s = s @ [LF]"

record outcome =
  stdout :: string
  raised :: "error option"

definition script :: "string option \<Rightarrow> outcome" where
  \<comment> \<open>the whole script; the argument is the text of \<open>EJK_G12_S20_LR.dat\<close>, or
      \<open>None\<close> when the file cannot be opened\<close>
  "script file =
     (case file of
        None \<Rightarrow> \<lparr>stdout = [], raised = Some OSError\<rparr>
      | Some text \<Rightarrow>
          (case for_loop 0 (readlines (universal_newlines text)) of
             Inl e \<Rightarrow> \<lparr>stdout = [], raised = Some e\<rparr>
           | Inr cnt \<Rightarrow> \<lparr>stdout = print_line (message cnt), raised = None\<rparr>))"

subsection \<open>Fields as the specification words them\<close>

fun whitespace_fields_from :: "string \<Rightarrow> string \<Rightarrow> string list" where
  \<comment> \<open>the fields of a text after the characters \<open>field\<close> of a field already begun\<close>
  "whitespace_fields_from field [] = (if field = [] then [] else [field])"
| "whitespace_fields_from field (c # cs) =
     (if Py_UNICODE_ISSPACE c then
        (if field = [] then whitespace_fields_from [] cs
         else field # whitespace_fields_from [] cs)
      else whitespace_fields_from (field @ [c]) cs)"

definition spec_whitespace_separated_fields :: "string \<Rightarrow> string list" where
  \<comment> \<open>not in the script: the ``whitespace-separated fields'' of the specification's
      overview, the maximal runs of characters that are not white space (what
      \<open>line.split()\<close> would give)\<close>
  "spec_whitespace_separated_fields line = whitespace_fields_from [] line"

section \<open>Properties of the loop\<close>

subsection \<open>One pass through the body\<close>

lemma loop_body_comment: "startswith line ''#'' \<Longrightarrow> loop_body cnt line = Inr cnt"
  by (simp add: loop_body_def)

lemma loop_body_data:
  assumes "\<not> startswith line ''#''"
    and "getitem (split_str line (CHR '' '')) 0 = Inr s0" and "float s0 = Inr l"
    and "getitem (split_str line (CHR '' '')) 1 = Inr s1" and "float s1 = Inr b"
  shows "loop_body cnt line = Inr (if in_footprint l b then cnt + 1 else cnt)"
  using assms by (simp add: loop_body_def)

lemma loop_body_shift:
  "loop_body cnt line = (case loop_body 0 line of Inl e \<Rightarrow> Inl e | Inr d \<Rightarrow> Inr (cnt + d))"
  by (simp add: loop_body_def Let_def split: sum.splits)

lemma loop_body_step:
  "loop_body cnt line = Inr cnt' \<Longrightarrow> cnt' = cnt \<or> cnt' = cnt + 1"
  by (auto simp add: loop_body_def Let_def split: sum.splits if_splits)

lemma loop_body_error_any:
  "loop_body cnt line = Inl e \<Longrightarrow> loop_body cnt' line = Inl e"
  by (auto simp add: loop_body_def Let_def split: sum.splits if_splits)

lemma for_loop_append:
  "for_loop cnt (xs @ ys) =
     (case for_loop cnt xs of Inl e \<Rightarrow> Inl e | Inr cnt' \<Rightarrow> for_loop cnt' ys)"
  by (induction xs arbitrary: cnt) (auto split: sum.splits)

lemma for_loop_snoc:
  "for_loop cnt (xs @ [x]) =
     (case for_loop cnt xs of Inl e \<Rightarrow> Inl e | Inr cnt' \<Rightarrow> loop_body cnt' x)"
  by (simp add: for_loop_append split: sum.splits)

lemma for_loop_bounds:
  "for_loop cnt lines = Inr n \<Longrightarrow>
     cnt \<le> n \<and> n \<le> cnt + int (length (filter (\<lambda>l. \<not> startswith l ''#'') lines))"
proof (induction lines arbitrary: cnt)
  case Nil
  then show ?case by simp
next
  case (Cons x xs)
  from Cons.prems obtain m where m: "loop_body cnt x = Inr m" and r: "for_loop m xs = Inr n"
    by (auto split: sum.splits)
  from Cons.IH [OF r] have b: "m \<le> n" "n \<le> m + int (length (filter (\<lambda>l. \<not> startswith l ''#'') xs))"
    by simp_all
  show ?case
  proof (cases "startswith x ''#''")
    case True
    with m have "m = cnt" by (simp add: loop_body_comment)
    with b True show ?thesis by simp
  next
    case False
    from loop_body_step [OF m] have "m = cnt \<or> m = cnt + 1" .
    with b False show ?thesis by auto
  qed
qed

lemma for_loop_error:
  assumes "line \<in> set lines" and "loop_body c0 line = Inl e0"
  shows "\<exists>e. for_loop cnt lines = Inl e"
  using assms(1)
proof (induction lines arbitrary: cnt)
  case Nil
  then show ?case by simp
next
  case (Cons x xs)
  show ?case
  proof (cases "loop_body cnt x")
    case (Inl e)
    then show ?thesis by simp
  next
    case (Inr m)
    have "x \<noteq> line"
    proof
      assume "x = line"
      with loop_body_error_any [OF assms(2), of cnt] Inr show False by simp
    qed
    with Cons.prems have "line \<in> set xs" by simp
    from Cons.IH [OF this] Inr show ?thesis by simp
  qed
qed

lemma for_loop_no_file_error: "for_loop cnt lines \<noteq> Inl OSError"
proof (induction lines arbitrary: cnt)
  case Nil
  then show ?case by simp
next
  case (Cons x xs)
  have "loop_body cnt x \<noteq> Inl OSError"
    by (auto simp add: loop_body_def Let_def getitem_def float_def split: sum.splits if_splits option.splits)
  with Cons show ?case by (auto split: sum.splits)
qed


lemma float_error: "float s = Inl e \<Longrightarrow> e = ValueError"
  by (auto simp add: float_def split: option.splits)

lemma float_lt_irrefl: "\<not> float_lt x x"
  by (cases x) simp_all

lemma split_str_not_Nil: "split_str s sep \<noteq> []"
  by (induction s) (auto split: list.splits)

lemma getitem_take_2:
  "getitem (take 2 xs) 0 = getitem xs 0" "getitem (take 2 xs) 1 = getitem xs 1"
  by (auto simp add: getitem_def)

lemma loop_body_fields:
  assumes "startswith x ''#'' = startswith y ''#''"
    and "\<not> startswith x ''#'' \<longrightarrow>
           take 2 (split_str x (CHR '' '')) = take 2 (split_str y (CHR '' ''))"
  shows "loop_body cnt x = loop_body cnt y"
proof (cases "startswith x ''#''")
  case True
  with assms(1) show ?thesis by (simp add: loop_body_comment)
next
  case False
  with assms have t: "take 2 (split_str x (CHR '' '')) = take 2 (split_str y (CHR '' ''))"
    and ny: "\<not> startswith y ''#''" by simp_all
  have g0: "getitem (split_str x (CHR '' '')) 0 = getitem (split_str y (CHR '' '')) 0"
    using getitem_take_2(1) [of "split_str x (CHR '' '')"]
          getitem_take_2(1) [of "split_str y (CHR '' '')"] t by simp
  have g1: "getitem (split_str x (CHR '' '')) 1 = getitem (split_str y (CHR '' '')) 1"
    using getitem_take_2(2) [of "split_str x (CHR '' '')"]
          getitem_take_2(2) [of "split_str y (CHR '' '')"] t by simp
  show ?thesis unfolding loop_body_def Let_def g0 g1 using False ny by simp
qed

lemma loop_body_malformed:
  assumes "\<not> startswith line ''#''"
    and "length (split_str line (CHR '' '')) < 2
         \<or> (\<exists>s. getitem (split_str line (CHR '' '')) 0 = Inr s \<and> float s = Inl ValueError)
         \<or> (\<exists>s. getitem (split_str line (CHR '' '')) 1 = Inr s \<and> float s = Inl ValueError)"
  shows "\<exists>e. loop_body cnt line = Inl e"
proof -
  let ?fs = "split_str line (CHR '' '')"
  have body: "loop_body cnt line =
      (case getitem ?fs 0 of Inl e \<Rightarrow> Inl e | Inr s0 \<Rightarrow>
      (case float s0 of Inl e \<Rightarrow> Inl e | Inr l \<Rightarrow>
      (case getitem ?fs 1 of Inl e \<Rightarrow> Inl e | Inr s1 \<Rightarrow>
      (case float s1 of Inl e \<Rightarrow> Inl e | Inr b \<Rightarrow>
        if in_footprint l b then Inr (cnt + 1) else Inr cnt))))"
    using assms(1) by (simp add: loop_body_def Let_def)
  from assms(2) consider
      (short) "length ?fs < 2"
    | (bad0) s where "getitem ?fs 0 = Inr s" "float s = Inl ValueError"
    | (bad1) s where "getitem ?fs 1 = Inr s" "float s = Inl ValueError"
    by blast
  then show ?thesis
  proof cases
    case short
    then have "getitem ?fs 1 = Inl IndexError" by (simp add: getitem_def)
    then show ?thesis unfolding body by (simp split: sum.splits)
  next
    case bad0
    then show ?thesis unfolding body by simp
  next
    case bad1
    then show ?thesis unfolding body by (simp split: sum.splits)
  qed
qed

subsection \<open>The whole loop\<close>

lemma for_loop_sum:
  "for_loop cnt ls = Inr n \<longleftrightarrow>
     (\<forall>l \<in> set ls. \<exists>d. loop_body 0 l = Inr d)
     \<and> n = cnt + (\<Sum>l\<leftarrow>ls. case loop_body 0 l of Inl e \<Rightarrow> 0 | Inr d \<Rightarrow> d)"
proof (induction ls arbitrary: cnt)
  case Nil
  then show ?case by auto
next
  case (Cons x xs)
  show ?case
  proof (cases "loop_body 0 x")
    case (Inl e)
    then have "loop_body cnt x = Inl e" by (rule loop_body_error_any)
    with Inl show ?thesis by auto
  next
    case (Inr d)
    then have "loop_body cnt x = Inr (cnt + d)"
      using loop_body_shift [of cnt x] by simp
    with Inr Cons.IH [of "cnt + d"] show ?thesis by auto
  qed
qed

lemma increment_comment_free:
  "(\<Sum>l\<leftarrow>ls. case loop_body 0 l of Inl e \<Rightarrow> 0 | Inr d \<Rightarrow> d) =
   (\<Sum>l\<leftarrow>filter (\<lambda>l. \<not> startswith l ''#'') ls. case loop_body 0 l of Inl e \<Rightarrow> (0::int) | Inr d \<Rightarrow> d)"
  by (induction ls) (simp_all add: loop_body_comment)

lemma sum_list_mset_cong:
  fixes f :: "'a \<Rightarrow> int"
  assumes "mset xs = mset ys"
  shows "(\<Sum>x\<leftarrow>xs. f x) = (\<Sum>x\<leftarrow>ys. f x)"
proof -
  have "(\<Sum>x\<leftarrow>xs. f x) = sum_mset (image_mset f (mset xs))"
    by (metis mset_map sum_mset_sum_list)
  also have "\<dots> = sum_mset (image_mset f (mset ys))"
    using assms by simp
  also have "\<dots> = (\<Sum>x\<leftarrow>ys. f x)"
    by (metis mset_map sum_mset_sum_list)
  finally show ?thesis .
qed

subsection \<open>The printed number\<close>

lemma Py_ISDIGIT_char_of:
  "0 \<le> d \<Longrightarrow> d < 10 \<Longrightarrow> Py_ISDIGIT (char_of (48 + d :: int))"
  by (simp add: Py_ISDIGIT_def)

lemma digit_value_char_of:
  "0 \<le> d \<Longrightarrow> d < 10 \<Longrightarrow> digit_value (char_of (48 + d :: int)) = d"
  by (simp add: digit_value_def)

lemma int_of_digits_snoc:
  "int_of_digits (ds @ [c]) = 10 * int_of_digits ds + digit_value c"
  by (simp add: int_of_digits_def)

lemma decimal_digits_are_digits:
  "0 \<le> n \<Longrightarrow> list_all Py_ISDIGIT (decimal_digits n)"
proof (induction n rule: decimal_digits.induct)
  case (1 n)
  show ?case
  proof (cases "n < 10")
    case True
    with "1.prems" show ?thesis
      by (simp add: decimal_digits.simps [of n] Py_ISDIGIT_char_of)
  next
    case False
    with "1.prems" "1.IH" have "list_all Py_ISDIGIT (decimal_digits (n div 10))" by simp
    moreover have "Py_ISDIGIT (char_of (48 + n mod 10))"
      by (rule Py_ISDIGIT_char_of) simp_all
    ultimately show ?thesis using False
      by (simp add: decimal_digits.simps [of n])
  qed
qed

lemma decimal_digits_value:
  "0 \<le> n \<Longrightarrow> int_of_digits (decimal_digits n) = n"
proof (induction n rule: decimal_digits.induct)
  case (1 n)
  show ?case
  proof (cases "n < 10")
    case True
    with "1.prems" show ?thesis
      by (simp add: decimal_digits.simps [of n] int_of_digits_def digit_value_char_of)
  next
    case False
    with "1.prems" "1.IH" have "int_of_digits (decimal_digits (n div 10)) = n div 10" by simp
    moreover have "digit_value (char_of (48 + n mod 10)) = n mod 10"
      by (rule digit_value_char_of) simp_all
    ultimately show ?thesis using False
      by (simp add: decimal_digits.simps [of n] int_of_digits_snoc)
  qed
qed

lemma digit_not_LF: "Py_ISDIGIT c \<Longrightarrow> c \<noteq> LF"
  by (auto simp add: Py_ISDIGIT_def LF_def)

lemma message_no_LF: "0 \<le> n \<Longrightarrow> LF \<notin> set (message n)"
  using decimal_digits_are_digits [of n] digit_not_LF
  by (auto simp add: message_def str_int_def LF_def list_all_iff)

subsection \<open>Blank text is not a number\<close>

lemma split_str_hd_subset: "set (hd (split_str s sep)) \<subseteq> set s"
  by (induction s) (auto split: list.splits)

lemma getitem_split_str_0: "getitem (split_str s sep) 0 = Inr (hd (split_str s sep))"
  using split_str_not_Nil [of s sep] by (simp add: getitem_def hd_conv_nth)

lemma Transform_blank:
  assumes "\<forall>c \<in> set s. Py_UNICODE_ISSPACE c"
  shows "\<forall>c \<in> set (TransformDecimalAndSpaceToASCII s).
           Py_UNICODE_ISSPACE c \<and> c \<noteq> CHR 0x85 \<and> c \<noteq> CHR 0xA0"
  using assms
proof (induction s)
  case Nil
  then show ?case by simp
next
  case (Cons c cs)
  then have c: "Py_UNICODE_ISSPACE c" and IH: "\<forall>c \<in> set (TransformDecimalAndSpaceToASCII cs).
           Py_UNICODE_ISSPACE c \<and> c \<noteq> CHR 0x85 \<and> c \<noteq> CHR 0xA0"
    by simp_all
  have sp: "Py_UNICODE_ISSPACE (CHR '' '')"
    by (simp add: Py_UNICODE_ISSPACE_def Py_ISSPACE_def)
  have small: "c \<noteq> CHR 0x85 \<and> c \<noteq> CHR 0xA0" if "(of_char c :: int) < 127"
    using that by auto
  from c IH sp small show ?case by auto
qed

lemma blank_not_underscore:
  "Py_UNICODE_ISSPACE c \<Longrightarrow> c \<noteq> CHR ''_''"
  by (auto simp add: Py_UNICODE_ISSPACE_def Py_ISSPACE_def)

lemma remove_underscores_blank:
  "\<forall>c \<in> set s. Py_UNICODE_ISSPACE c \<Longrightarrow> prev \<noteq> CHR ''_'' \<Longrightarrow>
     remove_underscores prev s = Some s"
proof (induction s arbitrary: prev)
  case Nil
  then show ?case by simp
next
  case (Cons c cs)
  then have "c \<noteq> CHR ''_''" by (simp add: blank_not_underscore)
  with Cons show ?case by simp
qed

lemma strip_space_cases:
  "strip_space s = [] \<or> (\<exists>c cs. strip_space s = c # cs \<and> \<not> Py_ISSPACE c \<and> c \<in> set s)"
proof (cases "dropWhile Py_ISSPACE s")
  case Nil
  show ?thesis unfolding strip_space_def Nil by simp
next
  case (Cons c cs)
  then have c: "\<not> Py_ISSPACE c" using hd_dropWhile [of Py_ISSPACE s] by simp
  have "c \<in> set (dropWhile Py_ISSPACE s)" using Cons by simp
  then have mem: "c \<in> set s" by (rule set_dropWhileD)
  have "dropWhile Py_ISSPACE (rev cs @ [c]) = dropWhile Py_ISSPACE (rev cs) @ [c]
        \<or> dropWhile Py_ISSPACE (rev cs @ [c]) = [c]"
    using c by (simp add: dropWhile_append)
  then have "strip_space s = c # rev (dropWhile Py_ISSPACE (rev cs)) \<or> strip_space s = [c]"
    unfolding strip_space_def Cons by auto
  then have "\<exists>ds. strip_space s = c # ds" by blast
  with c mem show ?thesis by blast
qed

lemma string_to_double_blank:
  assumes "s = [] \<or> (\<exists>c cs. s = c # cs \<and> Py_UNICODE_ISSPACE c \<and> \<not> Py_ISSPACE c)"
  shows "string_to_double s = None"
proof (cases s)
  case Nil
  then show ?thesis
    by (simp add: string_to_double_def parse_sign_def parse_decimal_def)
next
  case (Cons c cs)
  with assms have c: "c = CHR 0x1C \<or> c = CHR 0x1D \<or> c = CHR 0x1E \<or> c = CHR 0x1F
      \<or> c = CHR 0x85 \<or> c = CHR 0xA0"
    by (auto simp add: Py_UNICODE_ISSPACE_def)
  then have sign: "parse_sign s = (False, s)"
    using Cons by (auto simp add: parse_sign_def)
  from c have nd: "\<not> Py_ISDIGIT c" by (auto simp add: Py_ISDIGIT_def)
  then have dec: "parse_decimal s = None"
    using Cons c by (auto simp add: parse_decimal_def)
  from c have "Py_TOLOWER c = c" by (auto simp add: Py_TOLOWER_def)
  with c have low: "Py_TOLOWER c \<noteq> CHR ''i'' \<and> Py_TOLOWER c \<noteq> CHR ''n''" by auto
  show ?thesis
    unfolding string_to_double_def sign using dec low Cons by simp
qed

lemma float_blank:
  assumes "\<forall>c \<in> set s. Py_UNICODE_ISSPACE c"
  shows "float s = Inl ValueError"
proof -
  let ?t = "TransformDecimalAndSpaceToASCII s"
  from Transform_blank [OF assms] have t: "\<forall>c \<in> set ?t. Py_UNICODE_ISSPACE c" by blast
  then have u: "remove_underscores (CHR 0x00) ?t = Some ?t"
    by (rule remove_underscores_blank) simp
  from strip_space_cases [of ?t] t
  have "strip_space ?t = [] \<or>
      (\<exists>c cs. strip_space ?t = c # cs \<and> Py_UNICODE_ISSPACE c \<and> \<not> Py_ISSPACE c)"
    by blast
  then have "string_to_double (strip_space ?t) = None"
    by (rule string_to_double_blank)
  with u show ?thesis by (simp add: float_def)
qed

lemma loop_body_blank:
  assumes "\<forall>c \<in> set line. Py_UNICODE_ISSPACE c"
  shows "\<not> startswith line ''#''" and "loop_body cnt line = Inl ValueError"
proof -
  show n: "\<not> startswith line ''#''"
  proof (cases line)
    case Nil
    then show ?thesis by simp
  next
    case (Cons c cs)
    with assms have "Py_UNICODE_ISSPACE c" by simp
    then have "c \<noteq> CHR ''#''" by (auto simp add: Py_UNICODE_ISSPACE_def Py_ISSPACE_def)
    with Cons show ?thesis by simp
  qed
  from assms split_str_hd_subset [of line "CHR '' ''"]
  have "\<forall>c \<in> set (hd (split_str line (CHR '' ''))). Py_UNICODE_ISSPACE c" by blast
  then have "float (hd (split_str line (CHR '' ''))) = Inl ValueError"
    by (rule float_blank)
  with n show "loop_body cnt line = Inl ValueError"
    by (simp add: loop_body_def getitem_split_str_0)
qed

subsection \<open>Values used in the examples\<close>

lemma lit_3_1_value: "lit_3_1 = Finite (6980579422424269 / 2251799813685248)"
  by code_simp

lemma lit_1_8_value: "lit_1_8 = Finite (8106479329266893 / 4503599627370496)"
  by code_simp

lemma float_0: "float ''0'' = Inr (Finite 0)"
  by code_simp

lemma float_0_newline: "float ''0\<newline>'' = Inr (Finite 0)"
  by code_simp

lemma float_9: "float ''9'' = Inr (Finite 9)"
  by code_simp

lemma loop_body_0_0: "loop_body cnt ''0 0\<newline>'' = Inr (cnt + 1)"
  by (simp add: loop_body_def getitem_def float_0 float_0_newline in_footprint_def
      lit_3_1_value lit_1_8_value float_gt_def)

lemma loop_body_9_0: "loop_body cnt ''9 0\<newline>'' = Inr cnt"
  by (simp add: loop_body_def getitem_def float_9 float_0_newline in_footprint_def
      lit_3_1_value lit_1_8_value float_gt_def)

lemma float_3_1: "float ''3.1'' = Inr lit_3_1"
  by code_simp

lemma float_minus_3_1: "float ''-3.1'' = Inr (float_neg lit_3_1)"
  by code_simp

lemma float_1_8: "float ''1.8'' = Inr lit_1_8"
  by code_simp

lemma float_minus_1_8: "float ''-1.8'' = Inr (float_neg lit_1_8)"
  by code_simp

lemma float_rounds_up_to_3_1: "float ''3.09999999999999999'' = Inr lit_3_1"
  by code_simp

lemma in_footprint_rational:
  "in_footprint l b \<longleftrightarrow>
     (\<exists>x y. l = Finite x \<and> b = Finite y
        \<and> \<bar>x\<bar> < 6980579422424269 / 2251799813685248
        \<and> \<bar>y\<bar> < 8106479329266893 / 4503599627370496)"
  by (cases l; cases b)
     (auto simp add: in_footprint_def float_gt_def lit_3_1_value lit_1_8_value)

section \<open>The claims\<close>

text \<open>
  C4. A line that starts with \<open>#\<close> is skipped: whatever follows the \<open>#\<close>, the pass
  raises nothing and leaves the counter as it was. A list of such lines leaves the counter
  unchanged, and a file of such lines only makes the script print a count of 0.
\<close>

theorem comment_lines_skipped:
  "(startswith line ''#'' \<longrightarrow> loop_body cnt line = Inr cnt)
   \<and> ((\<forall>l \<in> set lines. startswith l ''#'') \<longrightarrow> for_loop cnt lines = Inr cnt)
   \<and> ((\<forall>l \<in> set (readlines (universal_newlines text)). startswith l ''#'') \<longrightarrow>
        script (Some text) =
          \<lparr>stdout = ''There are 0 grid points within the JASMINE extended footprint\<newline>'',
           raised = None\<rparr>)"
proof -
  have a: "(\<forall>l \<in> set ls. startswith l ''#'') \<longrightarrow> for_loop c ls = Inr c" for ls c
    by (induction ls) (simp_all add: loop_body_comment)
  have m: "print_line (message 0) =
      ''There are 0 grid points within the JASMINE extended footprint\<newline>''"
    by code_simp
  show ?thesis
    using a [of lines cnt] a [of "readlines (universal_newlines text)" 0] m
    by (simp add: loop_body_comment script_def)
qed

theorem comment_lines_skipped_witness:
  "startswith ''# x y'' ''#'' \<and> loop_body 7 ''# x y'' = Inr 7
   \<and> list_all (\<lambda>l. startswith l ''#'') [''#a\<newline>'', ''# 1.0\<newline>'']
   \<and> for_loop 7 [''#a\<newline>'', ''# 1.0\<newline>''] = Inr 7
   \<and> list_all (\<lambda>l. startswith l ''#'') (readlines (universal_newlines ''#a\<newline># 1.0''))
   \<and> script (Some ''#a\<newline># 1.0'') =
          \<lparr>stdout = ''There are 0 grid points within the JASMINE extended footprint\<newline>'',
           raised = None\<rparr>"
proof -
  have h1: "startswith ''# x y'' ''#''" by simp
  have h2: "\<forall>l \<in> set [''#a\<newline>'', ''# 1.0\<newline>'']. startswith l ''#''" by simp
  have h3: "\<forall>l \<in> set (readlines (universal_newlines ''#a\<newline># 1.0'')). startswith l ''#''"
    by (simp add: LF_def CR_def)
  from comment_lines_skipped [of "''# x y''" 7 "[''#a\<newline>'', ''# 1.0\<newline>'']" "''#a\<newline># 1.0''"] h1 h2 h3
  show ?thesis unfolding list_all_iff by blast
qed

text \<open>
  C7. The counter starts at zero; one pass adds one to it or leaves it. So after any
  number \<open>k\<close> of lines the counter is between 0 and the number of non-comment lines read
  so far, the counter after line \<open>k + 1\<close> is the counter after line \<open>k\<close> or one more, and
  the final count is between 0 and the number of non-comment lines of the input. A run that
  reaches the end has a counter after each of its lines.
\<close>

theorem counter_invariants:
  "for_loop 0 [] = Inr 0
   \<and> (for_loop 0 (take k lines) = Inr c \<longrightarrow>
        0 \<le> c \<and> c \<le> int (length (filter (\<lambda>l. \<not> startswith l ''#'') (take k lines))))
   \<and> (k < length lines \<and> for_loop 0 (take k lines) = Inr c
        \<and> for_loop 0 (take (Suc k) lines) = Inr c' \<longrightarrow>
        loop_body c (lines ! k) = Inr c' \<and> c \<le> c' \<and> c' \<le> c + 1)
   \<and> (for_loop 0 lines = Inr n \<longrightarrow>
        (\<exists>m. for_loop 0 (take k lines) = Inr m)
        \<and> 0 \<le> n \<and> n \<le> int (length (filter (\<lambda>l. \<not> startswith l ''#'') lines)))"
proof -
  have p1: "for_loop 0 (take k lines) = Inr c \<longrightarrow>
      0 \<le> c \<and> c \<le> int (length (filter (\<lambda>l. \<not> startswith l ''#'') (take k lines)))"
    using for_loop_bounds [of 0 "take k lines" c] by simp
  have p2: "loop_body c (lines ! k) = Inr c' \<and> c \<le> c' \<and> c' \<le> c + 1"
    if k: "k < length lines" and a: "for_loop 0 (take k lines) = Inr c"
      and b: "for_loop 0 (take (Suc k) lines) = Inr c'"
  proof -
    from k have "take (Suc k) lines = take k lines @ [lines ! k]"
      by (rule take_Suc_conv_app_nth)
    with a b have s: "loop_body c (lines ! k) = Inr c'"
      by (simp add: for_loop_snoc)
    from loop_body_step [OF s] s show ?thesis by auto
  qed
  have p3: "(\<exists>m. for_loop 0 (take k lines) = Inr m)
      \<and> 0 \<le> n \<and> n \<le> int (length (filter (\<lambda>l. \<not> startswith l ''#'') lines))"
    if f: "for_loop 0 lines = Inr n"
  proof -
    have "for_loop 0 (take k lines @ drop k lines) = Inr n" using f by simp
    then have "\<exists>m. for_loop 0 (take k lines) = Inr m"
      unfolding for_loop_append by (cases "for_loop 0 (take k lines)") simp_all
    with for_loop_bounds [OF f] show ?thesis by simp
  qed
  from p1 p2 p3 show ?thesis by simp
qed

theorem counter_invariants_witness:
  "for_loop 0 (take 1 [''0 0\<newline>'', ''#c\<newline>'', ''9 0\<newline>'', ''0 0\<newline>'']) = Inr 1
   \<and> for_loop 0 (take (Suc 1) [''0 0\<newline>'', ''#c\<newline>'', ''9 0\<newline>'', ''0 0\<newline>'']) = Inr 1
   \<and> for_loop 0 [''0 0\<newline>'', ''#c\<newline>'', ''9 0\<newline>'', ''0 0\<newline>''] = Inr 2
   \<and> (1::int) \<le> int (length (filter (\<lambda>l. \<not> startswith l ''#'')
                      (take 1 [''0 0\<newline>'', ''#c\<newline>'', ''9 0\<newline>'', ''0 0\<newline>''])))
   \<and> loop_body 1 ([''0 0\<newline>'', ''#c\<newline>'', ''9 0\<newline>'', ''0 0\<newline>''] ! 1) = Inr 1
   \<and> (2::int) \<le> int (length (filter (\<lambda>l. \<not> startswith l ''#'')
                      [''0 0\<newline>'', ''#c\<newline>'', ''9 0\<newline>'', ''0 0\<newline>'']))"
proof -
  let ?ls = "[''0 0\<newline>'', ''#c\<newline>'', ''9 0\<newline>'', ''0 0\<newline>'']"
  have h1: "for_loop 0 (take 1 ?ls) = Inr 1"
    by (simp add: loop_body_0_0)
  have h2: "for_loop 0 (take (Suc 1) ?ls) = Inr 1"
    by (simp add: loop_body_0_0 loop_body_comment)
  have h3: "for_loop 0 ?ls = Inr 2"
    by (simp add: loop_body_0_0 loop_body_9_0 loop_body_comment)
  have h4: "(1::nat) < length ?ls" by simp
  from counter_invariants [of 1 ?ls 1 1 2] h1 h2 h3 h4 show ?thesis by blast
qed

text \<open>
  C2. A line that does not start with \<open>#\<close> and that has fewer than two fields, or whose
  field 0 or field 1 \<open>float\<close> rejects, ends the run with an exception (\<open>ValueError\<close> from
  \<open>float\<close>, \<open>IndexError\<close> from the missing field), and nothing is written to standard
  output.
\<close>

theorem malformed_line_is_fatal:
  assumes "line \<in> set (readlines (universal_newlines text))"
    and "\<not> startswith line ''#''"
    and "length (split_str line (CHR '' '')) < 2
         \<or> (\<exists>s. getitem (split_str line (CHR '' '')) 0 = Inr s \<and> float s = Inl ValueError)
         \<or> (\<exists>s. getitem (split_str line (CHR '' '')) 1 = Inr s \<and> float s = Inl ValueError)"
  shows "(raised (script (Some text)) = Some ValueError
          \<or> raised (script (Some text)) = Some IndexError)
         \<and> stdout (script (Some text)) = []"
proof -
  from loop_body_malformed [OF assms(2,3)] obtain e0 where "loop_body 0 line = Inl e0" ..
  from for_loop_error [OF assms(1) this]
  obtain e where e: "for_loop 0 (readlines (universal_newlines text)) = Inl e" ..
  with for_loop_no_file_error [of 0 "readlines (universal_newlines text)"]
  have "e = ValueError \<or> e = IndexError" by (cases e) simp_all
  with e show ?thesis by (auto simp add: script_def)
qed

theorem malformed_line_is_fatal_witness:
  "''1.0\<newline>'' \<in> set (readlines (universal_newlines ''0 0\<newline>1.0\<newline>0 0\<newline>''))
   \<and> \<not> startswith ''1.0\<newline>'' ''#''
   \<and> length (split_str ''1.0\<newline>'' (CHR '' '')) < 2
   \<and> (raised (script (Some ''0 0\<newline>1.0\<newline>0 0\<newline>'')) = Some ValueError
      \<or> raised (script (Some ''0 0\<newline>1.0\<newline>0 0\<newline>'')) = Some IndexError)
   \<and> stdout (script (Some ''0 0\<newline>1.0\<newline>0 0\<newline>'')) = []"
proof -
  have h1: "''1.0\<newline>'' \<in> set (readlines (universal_newlines ''0 0\<newline>1.0\<newline>0 0\<newline>''))"
    by (simp add: LF_def CR_def)
  have h2: "\<not> startswith ''1.0\<newline>'' ''#''" by simp
  have h3: "length (split_str ''1.0\<newline>'' (CHR '' '')) < 2" by simp
  from malformed_line_is_fatal [OF h1 h2 disjI1, OF h3] h1 h2 h3 show ?thesis by blast
qed

text \<open>
  C8. Only fields 0 and 1 of a line are read. Two inputs with as many lines, whose lines
  agree pairwise on starting with \<open>#\<close> and, where they do not start with \<open>#\<close>, on
  the first two fields of the split at single spaces, run to the same result: the same
  final count, or the same exception.
\<close>

theorem only_fields_0_and_1_matter:
  assumes "list_all2 (\<lambda>x y. startswith x ''#'' = startswith y ''#''
             \<and> (\<not> startswith x ''#'' \<longrightarrow>
                  take 2 (split_str x (CHR '' '')) = take 2 (split_str y (CHR '' '')))) xs ys"
  shows "for_loop cnt xs = for_loop cnt ys"
  using assms
proof (induction xs ys arbitrary: cnt rule: list_all2_induct)
  case Nil
  then show ?case by simp
next
  case (Cons x xs y ys)
  from Cons.hyps(1) have "loop_body cnt x = loop_body cnt y"
    by (intro loop_body_fields) simp_all
  with Cons.IH show ?case by (simp split: sum.splits)
qed

theorem only_fields_0_and_1_matter_witness:
  "for_loop 0 [''0 0 12 abc\<newline>'', ''#a\<newline>'', ''9 0 \<newline>'']
   = for_loop 0 [''0 0 x\<newline>'', ''# 77\<newline>'', ''9 0 3 4 5\<newline>'']"
proof -
  have h: "list_all2 (\<lambda>x y. startswith x ''#'' = startswith y ''#''
             \<and> (\<not> startswith x ''#'' \<longrightarrow>
                  take 2 (split_str x (CHR '' '')) = take 2 (split_str y (CHR '' ''))))
            [''0 0 12 abc\<newline>'', ''#a\<newline>'', ''9 0 \<newline>'']
            [''0 0 x\<newline>'', ''# 77\<newline>'', ''9 0 3 4 5\<newline>'']"
    by simp
  from only_fields_0_and_1_matter [OF h] show ?thesis .
qed

text \<open>
  C6. The final count does not depend on the order of the lines: when a run over \<open>xs\<close>
  reaches the end with count \<open>n\<close>, a run over any \<open>ys\<close> whose lines not starting with
  \<open>#\<close> are a permutation of those of \<open>xs\<close> reaches the end with the same count.
\<close>

theorem count_is_order_independent:
  assumes "for_loop cnt xs = Inr n"
    and "mset (filter (\<lambda>l. \<not> startswith l ''#'') ys) = mset (filter (\<lambda>l. \<not> startswith l ''#'') xs)"
  shows "for_loop cnt ys = Inr n"
proof -
  let ?nc = "\<lambda>l. \<not> startswith l ''#''"
  let ?inc = "\<lambda>l. case loop_body 0 l of Inl e \<Rightarrow> (0::int) | Inr d \<Rightarrow> d"
  from assms(1) have ok: "\<forall>l \<in> set xs. \<exists>d. loop_body 0 l = Inr d"
    and n: "n = cnt + (\<Sum>l\<leftarrow>xs. ?inc l)"
    by (simp_all add: for_loop_sum)
  from assms(2) have "set (filter ?nc ys) = set (filter ?nc xs)"
    by (rule mset_eq_setD)
  then have sub: "l \<in> set xs" if "l \<in> set ys" "?nc l" for l
    using that by auto
  have ok': "\<forall>l \<in> set ys. \<exists>d. loop_body 0 l = Inr d"
  proof
    fix l assume l: "l \<in> set ys"
    show "\<exists>d. loop_body 0 l = Inr d"
    proof (cases "startswith l ''#''")
      case True
      then show ?thesis by (simp add: loop_body_comment)
    next
      case False
      with l sub ok show ?thesis by blast
    qed
  qed
  have "(\<Sum>l\<leftarrow>ys. ?inc l) = (\<Sum>l\<leftarrow>filter ?nc ys. ?inc l)"
    by (rule increment_comment_free)
  also have "\<dots> = (\<Sum>l\<leftarrow>filter ?nc xs. ?inc l)"
    using assms(2) by (rule sum_list_mset_cong)
  also have "\<dots> = (\<Sum>l\<leftarrow>xs. ?inc l)"
    by (rule increment_comment_free [symmetric])
  finally have "n = cnt + (\<Sum>l\<leftarrow>ys. ?inc l)" using n by simp
  with ok' show ?thesis by (simp add: for_loop_sum)
qed

theorem count_is_order_independent_witness:
  "for_loop 0 [''0 0\<newline>'', ''#c\<newline>'', ''9 0\<newline>''] = Inr 1
   \<and> mset (filter (\<lambda>l. \<not> startswith l ''#'') [''9 0\<newline>'', ''0 0\<newline>''])
     = mset (filter (\<lambda>l. \<not> startswith l ''#'') [''0 0\<newline>'', ''#c\<newline>'', ''9 0\<newline>''])
   \<and> for_loop 0 [''9 0\<newline>'', ''0 0\<newline>''] = Inr 1"
proof -
  have h1: "for_loop 0 [''0 0\<newline>'', ''#c\<newline>'', ''9 0\<newline>''] = Inr 1"
    by (simp add: loop_body_0_0 loop_body_9_0 loop_body_comment)
  have h2: "mset (filter (\<lambda>l. \<not> startswith l ''#'') [''9 0\<newline>'', ''0 0\<newline>''])
     = mset (filter (\<lambda>l. \<not> startswith l ''#'') [''0 0\<newline>'', ''#c\<newline>'', ''9 0\<newline>''])"
    by (simp add: add_mset_commute)
  from count_is_order_independent [OF h1 h2] h1 h2 show ?thesis by blast
qed

text \<open>
  C1. A line that does not start with \<open>#\<close> and whose fields 0 and 1 convert to the
  floats \<open>l\<close> and \<open>b\<close> is counted exactly when \<open>l > -3.1\<close>, \<open>l < 3.1\<close>,
  \<open>b > -1.8\<close> and \<open>b < 1.8\<close>, the comparisons being those of floats with the literals
  of the script; otherwise the counter stays. A line with \<open>l\<close> equal to \<open>-3.1\<close> or
  \<open>3.1\<close>, or \<open>b\<close> equal to \<open>-1.8\<close> or \<open>1.8\<close>, is not counted.
\<close>

theorem counted_iff_strictly_inside:
  assumes "\<not> startswith line ''#''"
    and "getitem (split_str line (CHR '' '')) 0 = Inr s0" and "float s0 = Inr l"
    and "getitem (split_str line (CHR '' '')) 1 = Inr s1" and "float s1 = Inr b"
  shows "((loop_body cnt line = Inr (cnt + 1)) =
            (float_gt l (float_neg lit_3_1) \<and> float_lt l lit_3_1
             \<and> float_gt b (float_neg lit_1_8) \<and> float_lt b lit_1_8))
         \<and> ((loop_body cnt line = Inr cnt) =
            (\<not> (float_gt l (float_neg lit_3_1) \<and> float_lt l lit_3_1
                \<and> float_gt b (float_neg lit_1_8) \<and> float_lt b lit_1_8)))
         \<and> (l = float_neg lit_3_1 \<or> l = lit_3_1 \<or> b = float_neg lit_1_8 \<or> b = lit_1_8
              \<longrightarrow> loop_body cnt line = Inr cnt)"
proof -
  have body: "loop_body cnt line = Inr (if in_footprint l b then cnt + 1 else cnt)"
    using assms by (rule loop_body_data)
  have edge: "\<not> in_footprint l b"
    if "l = float_neg lit_3_1 \<or> l = lit_3_1 \<or> b = float_neg lit_1_8 \<or> b = lit_1_8"
    using that by (auto simp add: in_footprint_def float_gt_def float_lt_irrefl)
  show ?thesis
    unfolding body using edge by (auto simp add: in_footprint_def)
qed

theorem counted_iff_strictly_inside_witness:
  "\<not> startswith ''3.1 0\<newline>'' ''#''
   \<and> getitem (split_str ''3.1 0\<newline>'' (CHR '' '')) 0 = Inr ''3.1''
   \<and> float ''3.1'' = Inr lit_3_1
   \<and> getitem (split_str ''3.1 0\<newline>'' (CHR '' '')) 1 = Inr ''0\<newline>''
   \<and> float ''0\<newline>'' = Inr (Finite 0)
   \<and> loop_body 4 ''3.1 0\<newline>'' = Inr 4
   \<and> loop_body 4 ''3.1 0\<newline>'' \<noteq> Inr (4 + 1)"
proof -
  have h1: "\<not> startswith ''3.1 0\<newline>'' ''#''" by simp
  have h2: "getitem (split_str ''3.1 0\<newline>'' (CHR '' '')) 0 = Inr ''3.1''"
    by (simp add: getitem_def)
  have h4: "getitem (split_str ''3.1 0\<newline>'' (CHR '' '')) 1 = Inr ''0\<newline>''"
    by (simp add: getitem_def)
  note c = counted_iff_strictly_inside [OF h1 h2 float_3_1 h4 float_0_newline, of 4]
  from c have "loop_body 4 ''3.1 0\<newline>'' = Inr 4" by blast
  with h1 h2 h4 float_3_1 float_0_newline show ?thesis by simp
qed

text \<open>
  C5. A run that raises nothing writes one line to standard output: the sentence
  \<open>There are N grid points within the JASMINE extended footprint\<close> and a line feed,
  with no other line feed in it, where \<open>N\<close> is the final value of the counter written in
  decimal digits.
\<close>

theorem output_is_one_line:
  assumes "raised (script file) = None"
  shows "\<exists>contents n. file = Some contents
           \<and> for_loop 0 (readlines (universal_newlines contents)) = Inr n
           \<and> stdout (script file) =
               ''There are '' @ str_int n
               @ '' grid points within the JASMINE extended footprint'' @ ''\<newline>''
           \<and> LF \<notin> set (''There are '' @ str_int n
                         @ '' grid points within the JASMINE extended footprint'')
           \<and> 0 \<le> n \<and> list_all Py_ISDIGIT (str_int n) \<and> int_of_digits (str_int n) = n"
proof -
  from assms obtain contents where f: "file = Some contents"
    by (cases "file") (simp_all add: script_def)
  with assms obtain n where n: "for_loop 0 (readlines (universal_newlines contents)) = Inr n"
    by (cases "for_loop 0 (readlines (universal_newlines contents))") (simp_all add: script_def)
  from for_loop_bounds [OF n] have pos: "0 \<le> n" by simp
  have out: "stdout (script file) =
      ''There are '' @ str_int n
      @ '' grid points within the JASMINE extended footprint'' @ ''\<newline>''"
    using f n by (simp add: script_def print_line_def message_def LF_def)
  have nolf: "LF \<notin> set (''There are '' @ str_int n
                         @ '' grid points within the JASMINE extended footprint'')"
    using message_no_LF [OF pos] by (simp add: message_def)
  have dig: "list_all Py_ISDIGIT (str_int n)" "int_of_digits (str_int n) = n"
    using pos by (simp_all add: str_int_def decimal_digits_are_digits decimal_digits_value)
  from f n out nolf pos dig show ?thesis by blast
qed

theorem output_is_one_line_witness:
  "raised (script (Some ''0 0\<newline>#c\<newline>9 0\<newline>0 0'')) = None
   \<and> stdout (script (Some ''0 0\<newline>#c\<newline>9 0\<newline>0 0'')) =
       ''There are 2 grid points within the JASMINE extended footprint\<newline>''"
proof -
  let ?text = "''0 0\<newline>#c\<newline>9 0\<newline>0 0''"
  have r: "readlines (universal_newlines ?text) = [''0 0\<newline>'', ''#c\<newline>'', ''9 0\<newline>'', ''0 0'']"
    by (simp add: LF_def CR_def)
  have l: "loop_body cnt ''0 0'' = Inr (cnt + 1)" for cnt
    by (simp add: loop_body_def getitem_def float_0 in_footprint_def
        lit_3_1_value lit_1_8_value float_gt_def)
  have n: "for_loop 0 (readlines (universal_newlines ?text)) = Inr 2"
    unfolding r by (simp add: loop_body_0_0 loop_body_9_0 loop_body_comment l)
  then have h: "raised (script (Some ?text)) = None"
    by (simp add: script_def)
  from output_is_one_line [OF h] n have
    "stdout (script (Some ?text)) =
       ''There are '' @ str_int 2 @ '' grid points within the JASMINE extended footprint'' @ ''\<newline>''"
    by auto
  moreover have "str_int 2 = ''2''" by code_simp
  ultimately show ?thesis using h by simp
qed

text \<open>
  C9. The file with the five lines \<open>-3.0 1.0 x\<close>, \<open>3.1 0.0 y\<close>, \<open>0.0 -1.8 z\<close>,
  \<open># comment\<close> and \<open>1.0 1.0 w\<close>, each ended by a line feed: the script raises nothing
  and prints \<open>There are 2 grid points within the JASMINE extended footprint\<close>.
\<close>

theorem example_run:
  "script (Some ''-3.0 1.0 x\<newline>3.1 0.0 y\<newline>0.0 -1.8 z\<newline># comment\<newline>1.0 1.0 w\<newline>'') =
     \<lparr>stdout = ''There are 2 grid points within the JASMINE extended footprint\<newline>'',
      raised = None\<rparr>"
  by code_simp

text \<open>
  C10. A line made of white space only (a line feed alone, spaces, tabs; the empty text
  too) does not start with \<open>#\<close>, so it is not skipped: its field 0 is blank, \<open>float\<close>
  rejects it, and the pass raises \<open>ValueError\<close>. A file with such a line makes the script
  end with an exception and print nothing.
\<close>

theorem blank_line_is_fatal:
  assumes "\<forall>c \<in> set line. Py_UNICODE_ISSPACE c"
  shows "\<not> startswith line ''#''
         \<and> (\<exists>s. getitem (split_str line (CHR '' '')) 0 = Inr s \<and> float s = Inl ValueError)
         \<and> loop_body cnt line = Inl ValueError
         \<and> (line \<in> set (readlines (universal_newlines text)) \<longrightarrow>
              (raised (script (Some text)) = Some ValueError
               \<or> raised (script (Some text)) = Some IndexError)
              \<and> stdout (script (Some text)) = [])"
proof -
  note b = loop_body_blank [OF assms]
  from assms split_str_hd_subset [of line "CHR '' ''"]
  have "\<forall>c \<in> set (hd (split_str line (CHR '' ''))). Py_UNICODE_ISSPACE c" by blast
  then have f0: "float (hd (split_str line (CHR '' ''))) = Inl ValueError"
    by (rule float_blank)
  have run: "(raised (script (Some text)) = Some ValueError
               \<or> raised (script (Some text)) = Some IndexError)
              \<and> stdout (script (Some text)) = []"
    if mem: "line \<in> set (readlines (universal_newlines text))"
  proof -
    from for_loop_error [OF mem b(2) [of 0]]
    obtain e where e: "for_loop 0 (readlines (universal_newlines text)) = Inl e" ..
    with for_loop_no_file_error [of 0 "readlines (universal_newlines text)"]
    have "e = ValueError \<or> e = IndexError" by (cases e) simp_all
    with e show ?thesis by (auto simp add: script_def)
  qed
  from b f0 run getitem_split_str_0 [of line "CHR '' ''"] show ?thesis by blast
qed

theorem blank_line_is_fatal_witness:
  "list_all Py_UNICODE_ISSPACE [CHR '' '', CHR 0x09, CHR 0x0A]
   \<and> [CHR '' '', CHR 0x09, CHR 0x0A]
       \<in> set (readlines (universal_newlines (''0 0\<newline>'' @ [CHR '' '', CHR 0x09, CHR 0x0A] @ ''0 0\<newline>'')))
   \<and> loop_body 0 [CHR '' '', CHR 0x09, CHR 0x0A] = Inl ValueError
   \<and> (raised (script (Some (''0 0\<newline>'' @ [CHR '' '', CHR 0x09, CHR 0x0A] @ ''0 0\<newline>''))) = Some ValueError
      \<or> raised (script (Some (''0 0\<newline>'' @ [CHR '' '', CHR 0x09, CHR 0x0A] @ ''0 0\<newline>''))) = Some IndexError)
   \<and> stdout (script (Some (''0 0\<newline>'' @ [CHR '' '', CHR 0x09, CHR 0x0A] @ ''0 0\<newline>''))) = []"
proof -
  let ?line = "[CHR '' '', CHR 0x09, CHR 0x0A]"
  let ?text = "''0 0\<newline>'' @ ?line @ ''0 0\<newline>''"
  have h1: "\<forall>c \<in> set ?line. Py_UNICODE_ISSPACE c"
    by (simp add: Py_UNICODE_ISSPACE_def Py_ISSPACE_def)
  have h2: "?line \<in> set (readlines (universal_newlines ?text))"
    by (simp add: LF_def CR_def)
  from blank_line_is_fatal [OF h1, of 0 ?text] h1 h2 show ?thesis
    unfolding list_all_iff by blast
qed

text \<open>
  C3, as the specification words it, fails: a line whose first two white-space-separated
  fields are numbers, but with two spaces or a tab between them, makes the pass raise
  \<open>ValueError\<close>, because the script splits at every single space and at nothing else.
\<close>

theorem whitespace_separated_fields_rejected:
  "\<not> startswith ''1.0  2.0\<newline>'' ''#''
   \<and> take 2 (spec_whitespace_separated_fields ''1.0  2.0\<newline>'') = [''1.0'', ''2.0'']
   \<and> float ''1.0'' = Inr (Finite 1)
   \<and> float ''2.0'' = Inr (Finite 2)
   \<and> split_str ''1.0  2.0\<newline>'' (CHR '' '') = [''1.0'', [], ''2.0\<newline>'']
   \<and> loop_body 0 ''1.0  2.0\<newline>'' = Inl ValueError
   \<and> take 2 (spec_whitespace_separated_fields (''1.0'' @ [CHR 0x09] @ ''2.0\<newline>''))
       = [''1.0'', ''2.0'']
   \<and> split_str (''1.0'' @ [CHR 0x09] @ ''2.0\<newline>'') (CHR '' '')
       = [''1.0'' @ [CHR 0x09] @ ''2.0\<newline>'']
   \<and> loop_body 0 (''1.0'' @ [CHR 0x09] @ ''2.0\<newline>'') = Inl ValueError"
  by code_simp

text \<open>
  C3, amended. A line that does not start with \<open>#\<close> and that, split at every single
  space, has a field 0 and a field 1 that \<open>float\<close> accepts: the pass takes the value of
  field 0 as \<open>l\<close> and that of field 1 as \<open>b\<close> and raises nothing; the counter grows by one
  or stays, as \<open>l\<close> and \<open>b\<close> decide.
\<close>

theorem single_space_separated_fields_parse:
  assumes "\<not> startswith line ''#''"
    and "getitem (split_str line (CHR '' '')) 0 = Inr s0" and "float s0 = Inr l"
    and "getitem (split_str line (CHR '' '')) 1 = Inr s1" and "float s1 = Inr b"
  shows "\<exists>cnt'. loop_body cnt line = Inr cnt'
           \<and> cnt' = (if in_footprint l b then cnt + 1 else cnt)"
  using loop_body_data [OF assms] by simp

theorem single_space_separated_fields_parse_witness:
  "\<not> startswith ''1.0 2.0\<newline>'' ''#''
   \<and> getitem (split_str ''1.0 2.0\<newline>'' (CHR '' '')) 0 = Inr ''1.0''
   \<and> float ''1.0'' = Inr (Finite 1)
   \<and> getitem (split_str ''1.0 2.0\<newline>'' (CHR '' '')) 1 = Inr ''2.0\<newline>''
   \<and> float ''2.0\<newline>'' = Inr (Finite 2)
   \<and> loop_body 0 ''1.0 2.0\<newline>'' = Inr 0"
proof -
  have h1: "\<not> startswith ''1.0 2.0\<newline>'' ''#''" by simp
  have h2: "getitem (split_str ''1.0 2.0\<newline>'' (CHR '' '')) 0 = Inr ''1.0''"
    by (simp add: getitem_def)
  have h3: "float ''1.0'' = Inr (Finite 1)" by code_simp
  have h4: "getitem (split_str ''1.0 2.0\<newline>'' (CHR '' '')) 1 = Inr ''2.0\<newline>''"
    by (simp add: getitem_def)
  have h5: "float ''2.0\<newline>'' = Inr (Finite 2)" by code_simp
  have out: "\<not> in_footprint (Finite 1) (Finite 2)"
    by (simp add: in_footprint_rational)
  from single_space_separated_fields_parse [OF h1 h2 h3 h4 h5, of 0] out
  have "loop_body 0 ''1.0 2.0\<newline>'' = Inr 0" by simp
  with h1 h2 h3 h4 h5 show ?thesis by simp
qed

end
